theory Spec2Isabelle
  imports Complex_Main
begin

section \<open>The bin stores of ddsketch (src/ddsketch/store.py)\<close>

text \<open>
  A store maps integer keys to counters kept in a Python list \<open>bins\<close>; index \<open>i\<close> is the
  counter of key \<open>min_key + i\<close>. Python integers are unbounded, so keys and counters are
  \<open>int\<close>. The two concrete classes share every method but \<open>_grow_left\<close>, \<open>_grow_right\<close>
  and \<open>copy\<close>, which Python dispatches on the class of \<open>self\<close>: the model keeps one
  record and dispatches on \<open>max_bins\<close>, which is \<open>None\<close> for a \<open>DenseStore\<close> (the class
  has no such attribute) and \<open>Some m\<close> for a \<open>CollapsingLowestDenseStore\<close>.

  Every method mutates \<open>self\<close>; the model passes the store in and returns the updated
  one. A Python exception is the \<open>Inl\<close> of the result. The quotient in \<open>_grow_by\<close> is
  Python's true division followed by \<open>math.ceil\<close>; it is taken as the exact quotient of
  the two integers. \<open>np.sum\<close> over a list of counters is taken as the exact sum.
\<close>

datatype error = IndexError | ZeroDivisionError | AttributeError

record store =
  max_bins :: "int option"
  initial_nbins :: int
  chunk_size :: int
  initial_chunk_size :: int
  count :: int
  min_key :: int
  max_key :: int
  bins :: "int list"

definition INITIAL_NBINS :: int where
  "INITIAL_NBINS = 128"

definition CHUNK_SIZE :: int where
  "CHUNK_SIZE = 128"

subsection \<open>Python lists\<close>

text \<open>\<open>[0] * n\<close>: the empty list when \<open>n \<le> 0\<close>.\<close>

definition zeros :: "int \<Rightarrow> int list" where
  "zeros n = replicate (nat n) 0"

text \<open>
  \<open>xs[i]\<close>: a negative index counts from the end, and an index outside
  \<open>[-len, len)\<close> raises IndexError.
\<close>

definition py_index :: "'a list \<Rightarrow> int \<Rightarrow> error + nat" where
  "py_index xs i =
     (if 0 \<le> i \<and> i < int (length xs) then Inr (nat i)
      else if i < 0 \<and> - int (length xs) \<le> i then Inr (nat (int (length xs) + i))
      else Inl IndexError)"

text \<open>\<open>xs[i] = v\<close>.\<close>

definition list_set_at :: "int list \<Rightarrow> int \<Rightarrow> int \<Rightarrow> error + int list" where
  "list_set_at xs i v =
     (case py_index xs i of
        Inl e \<Rightarrow> Inl e
      | Inr j \<Rightarrow> Inr (xs[j := v]))"

text \<open>\<open>xs[i] += v\<close>.\<close>

definition list_add_at :: "int list \<Rightarrow> int \<Rightarrow> int \<Rightarrow> error + int list" where
  "list_add_at xs i v =
     (case py_index xs i of
        Inl e \<Rightarrow> Inl e
      | Inr j \<Rightarrow> Inr (xs[j := xs ! j + v]))"

text \<open>\<open>xs[:n]\<close>: a negative bound counts from the end; a bound past the end is clipped.\<close>

definition slice_to :: "int \<Rightarrow> 'a list \<Rightarrow> 'a list" where
  "slice_to n xs = (if n < 0 then take (length xs - nat (- n)) xs else take (nat n) xs)"

text \<open>\<open>xs[n:]\<close>.\<close>

definition slice_from :: "int \<Rightarrow> 'a list \<Rightarrow> 'a list" where
  "slice_from n xs = (if n < 0 then drop (length xs - nat (- n)) xs else drop (nat n) xs)"

subsection \<open>Construction\<close>

text \<open>\<open>DenseStore.__init__\<close> (lines 63-71).\<close>

definition DenseStore_init :: "int \<Rightarrow> int \<Rightarrow> store" where
  "DenseStore_init nbins csize =
     \<lparr> max_bins = None, initial_nbins = nbins, chunk_size = csize,
       initial_chunk_size = csize, count = 0, min_key = 0, max_key = 0,
       bins = zeros nbins \<rparr>"

text \<open>
  \<open>CollapsingLowestDenseStore.__init__\<close> (lines 197-204): \<open>super().__init__()\<close> is called
  without arguments, then four attributes are set again.
\<close>

definition CollapsingLowestDenseStore_init :: "int \<Rightarrow> int \<Rightarrow> int \<Rightarrow> store" where
  "CollapsingLowestDenseStore_init mbins nbins csize =
     (let s = DenseStore_init INITIAL_NBINS CHUNK_SIZE
      in s\<lparr> max_bins := Some mbins,
             initial_nbins := min mbins nbins,
             initial_chunk_size := min mbins csize,
             bins := zeros (min mbins nbins) \<rparr>)"

text \<open>
  The constructor calls \<open>DenseStore(initial_nbins, chunk_size)\<close> and
  \<open>CollapsingLowestDenseStore(max_bins, initial_nbins, chunk_size)\<close>: what the caller
  gets, a store or an exception. No statement of either \<open>__init__\<close> raises on integers.
\<close>

definition DenseStore :: "int \<Rightarrow> int \<Rightarrow> error + store" where
  "DenseStore nbins csize = Inr (DenseStore_init nbins csize)"

definition CollapsingLowestDenseStore :: "int \<Rightarrow> int \<Rightarrow> int \<Rightarrow> error + store" where
  "CollapsingLowestDenseStore mbins nbins csize =
     Inr (CollapsingLowestDenseStore_init mbins nbins csize)"

subsection \<open>length, growth\<close>

definition length_store :: "store \<Rightarrow> int" where
  "length_store s = int (length (bins s))"

text \<open>
  \<open>_grow_by\<close> (lines 84-86): \<open>chunk_size * math.ceil(required_growth / chunk_size)\<close>;
  the division raises ZeroDivisionError when \<open>chunk_size\<close> is 0.
\<close>

definition grow_by :: "store \<Rightarrow> int \<Rightarrow> error + int" where
  "grow_by s required_growth =
     (if chunk_size s = 0 then Inl ZeroDivisionError
      else Inr (chunk_size s *
                \<lceil>real_of_int required_growth / real_of_int (chunk_size s)\<rceil>))"

text \<open>\<open>DenseStore._grow_left\<close> (lines 120-128).\<close>

definition DenseStore_grow_left :: "store \<Rightarrow> int \<Rightarrow> error + store" where
  "DenseStore_grow_left s key =
     (if min_key s < key then Inr s
      else case grow_by s (min_key s - key) of
             Inl e \<Rightarrow> Inl e
           | Inr g \<Rightarrow>
               (let mk = min_key s - g
                in Inr (s\<lparr> bins := zeros (min_key s - mk) @ bins s, min_key := mk \<rparr>)))"

text \<open>\<open>DenseStore._grow_right\<close> (lines 130-137).\<close>

definition DenseStore_grow_right :: "store \<Rightarrow> int \<Rightarrow> error + store" where
  "DenseStore_grow_right s key =
     (if max_key s > key then Inr s
      else case grow_by s (key - max_key s) of
             Inl e \<Rightarrow> Inl e
           | Inr g \<Rightarrow>
               (let mk = max_key s + g
                in Inr (s\<lparr> bins := bins s @ zeros (mk - max_key s), max_key := mk \<rparr>)))"

text \<open>
  \<open>CollapsingLowestDenseStore._grow_left\<close> (lines 206-220); \<open>m\<close> is \<open>self.max_bins\<close>.
\<close>

definition Collapsing_grow_left :: "int \<Rightarrow> store \<Rightarrow> int \<Rightarrow> error + store" where
  "Collapsing_grow_left m s key =
     (if min_key s < key \<or> int (length (bins s)) \<ge> m then Inr s
      else
        let min_possible = max_key s - m + 1
        in case (if max_key s - key \<ge> m then Inr min_possible
                 else case grow_by s (min_key s - key) of
                        Inl e \<Rightarrow> Inl e
                      | Inr g \<Rightarrow> Inr (max (min_key s - g) min_possible)) of
             Inl e \<Rightarrow> Inl e
           | Inr mk \<Rightarrow>
               Inr (s\<lparr> bins := zeros (min_key s - mk) @ bins s, min_key := mk \<rparr>))"

text \<open>
  \<open>CollapsingLowestDenseStore._grow_right\<close> (lines 222-249). The three branches are the
  source's: everything into the first bin, compression on the left, growth to the right.
\<close>

definition Collapsing_grow_right :: "int \<Rightarrow> store \<Rightarrow> int \<Rightarrow> error + store" where
  "Collapsing_grow_right m s key =
     (if max_key s > key then Inr s
      else if key - max_key s \<ge> m then
        (case list_set_at (zeros m) 0 (count s) of
           Inl e \<Rightarrow> Inl e
         | Inr b \<Rightarrow> Inr (s\<lparr> bins := b, max_key := key, min_key := key - m + 1 \<rparr>))
      else if key - min_key s \<ge> m then
        (let mk = key - m + 1;
             ct_to_compress = sum_list (slice_to (mk - min_key s) (bins s));
             b1 = slice_from (mk - min_key s) (bins s) @ zeros (key - max_key s)
         in case list_add_at b1 0 ct_to_compress of
              Inl e \<Rightarrow> Inl e
            | Inr b \<Rightarrow> Inr (s\<lparr> bins := b, max_key := key, min_key := mk \<rparr>))
      else
        (case grow_by s (key - max_key s) of
           Inl e \<Rightarrow> Inl e
         | Inr g \<Rightarrow>
             (let mk = min (max_key s + g) (min_key s + m)
              in Inr (s\<lparr> bins := bins s @ zeros (mk - max_key s), max_key := mk \<rparr>))))"

text \<open>The method call \<open>self._grow_left(key)\<close>, dispatched on the class of \<open>self\<close>.\<close>

definition grow_left :: "store \<Rightarrow> int \<Rightarrow> error + store" where
  "grow_left s key =
     (case max_bins s of
        None \<Rightarrow> DenseStore_grow_left s key
      | Some m \<Rightarrow> Collapsing_grow_left m s key)"

definition grow_right :: "store \<Rightarrow> int \<Rightarrow> error + store" where
  "grow_right s key =
     (case max_bins s of
        None \<Rightarrow> DenseStore_grow_right s key
      | Some m \<Rightarrow> Collapsing_grow_right m s key)"

subsection \<open>add\<close>

text \<open>
  \<open>add\<close>, lines 89-97: the array is allocated if it is empty, then the key range is
  initialised (first insertion) or grown.
\<close>

definition add_grow :: "store \<Rightarrow> int \<Rightarrow> error + store" where
  "add_grow s key =
     (let s0 = (if length (bins s) = 0
                then s\<lparr> bins := zeros (initial_chunk_size s) \<rparr> else s)
      in if count s0 = 0 then
           Inr (s0\<lparr> max_key := key, min_key := key - int (length (bins s0)) + 1 \<rparr>)
         else if key < min_key s0 then grow_left s0 key
         else if key > max_key s0 then grow_right s0 key
         else Inr s0)"

text \<open>\<open>add\<close>, lines 88-101: after the growth, the bin at the clamped index and the count.\<close>

definition add :: "store \<Rightarrow> int \<Rightarrow> error + store" where
  "add s key =
     (case add_grow s key of
        Inl e \<Rightarrow> Inl e
      | Inr s1 \<Rightarrow>
          (let idx = max 0 (key - min_key s1)
           in case list_add_at (bins s1) idx 1 of
                Inl e \<Rightarrow> Inl e
              | Inr b \<Rightarrow> Inr (s1\<lparr> bins := b, count := count s1 + 1 \<rparr>)))"

text \<open>A sequence of \<open>add\<close> calls; the first exception ends it.\<close>

fun add_all :: "store \<Rightarrow> int list \<Rightarrow> error + store" where
  "add_all s [] = Inr s"
| "add_all s (k # ks) =
     (case add s k of Inl e \<Rightarrow> Inl e | Inr s' \<Rightarrow> add_all s' ks)"

subsection \<open>key_at_rank\<close>



subsection \<open>copy, merge\<close>

text \<open>
  \<open>copy\<close> (lines 172-176, 251-253). The collapsing store reads \<open>store.max_bins\<close> first,
  an attribute a \<open>DenseStore\<close> does not have.
\<close>

definition DenseStore_copy :: "store \<Rightarrow> store \<Rightarrow> store" where
  "DenseStore_copy s st =
     s\<lparr> bins := bins st, count := count st, min_key := min_key st, max_key := max_key st \<rparr>"

definition copy :: "store \<Rightarrow> store \<Rightarrow> error + store" where
  "copy s st =
     (case max_bins s of
        None \<Rightarrow> Inr (DenseStore_copy s st)
      | Some m \<Rightarrow>
          (case max_bins st of
             None \<Rightarrow> Inl AttributeError
           | Some m' \<Rightarrow> Inr (DenseStore_copy (s\<lparr> max_bins := Some m' \<rparr>) st)))"

text \<open>
  The loops of \<open>merge\<close>, \<open>for i in range(a, b + 1): dst[i - dmin] += src[i - smin]\<close>,
  over the keys \<open>i\<close> left to visit.
\<close>

fun merge_loop :: "int list \<Rightarrow> int \<Rightarrow> int list \<Rightarrow> int \<Rightarrow> int list \<Rightarrow> error + int list" where
  "merge_loop [] dmin dst smin src = Inr dst"
| "merge_loop (i # rest) dmin dst smin src =
     (case py_index src (i - smin) of
        Inl e \<Rightarrow> Inl e
      | Inr j \<Rightarrow>
          (case list_add_at dst (i - dmin) (src ! j) of
             Inl e \<Rightarrow> Inl e
           | Inr dst' \<Rightarrow> merge_loop rest dmin dst' smin src))"

text \<open>\<open>merge\<close> (lines 139-170).\<close>

definition merge :: "store \<Rightarrow> store \<Rightarrow> error + store" where
  "merge s st =
     (if count st = 0 then Inr s
      else if count s = 0 then copy s st
      else if max_key s > max_key st then
        (case (if min_key st < min_key s then grow_left s (min_key st) else Inr s) of
           Inl e \<Rightarrow> Inl e
         | Inr s1 \<Rightarrow>
             (case merge_loop [max (min_key s1) (min_key st) .. max_key st]
                     (min_key s1) (bins s1) (min_key st) (bins st) of
                Inl e \<Rightarrow> Inl e
              | Inr b2 \<Rightarrow>
                  (case (if min_key s1 > min_key st
                         then list_add_at b2 0
                                (sum_list (slice_to (min_key s1 - min_key st) (bins st)))
                         else Inr b2) of
                     Inl e \<Rightarrow> Inl e
                   | Inr b3 \<Rightarrow> Inr (s1\<lparr> bins := b3, count := count s1 + count st \<rparr>))))
      else if min_key st < min_key s then
        (case merge_loop [min_key s .. max_key s]
                (min_key st) (bins st) (min_key s) (bins s) of
           Inl e \<Rightarrow> Inl e
         | Inr tmp \<Rightarrow>
             Inr (s\<lparr> bins := tmp, max_key := max_key st, min_key := min_key st,
                     count := count s + count st \<rparr>))
      else
        (case grow_right s (max_key st) of
           Inl e \<Rightarrow> Inl e
         | Inr s1 \<Rightarrow>
             (case merge_loop [min_key st .. max_key st]
                     (min_key s1) (bins s1) (min_key st) (bins st) of
                Inl e \<Rightarrow> Inl e
              | Inr b2 \<Rightarrow> Inr (s1\<lparr> bins := b2, count := count s1 + count st \<rparr>))))"

text \<open>
  \<open>s.merge(s)\<close>: \<open>store\<close> is \<open>self\<close>, the one case in which the argument of \<open>merge\<close>
  shares its array with \<open>self\<close> (\<open>copy\<close> and the second branch duplicate the list). The
  two key comparisons are false, so the last branch runs; what \<open>_grow_right\<close> does to
  \<open>self\<close> is seen through \<open>store\<close>, and the loop reads each bin before it writes it.
\<close>

definition merge_self :: "store \<Rightarrow> error + store" where
  "merge_self s =
     (if count s = 0 then Inr s
      else
        (case grow_right s (max_key s) of
           Inl e \<Rightarrow> Inl e
         | Inr s1 \<Rightarrow>
             (case merge_loop [min_key s1 .. max_key s1]
                     (min_key s1) (bins s1) (min_key s1) (bins s1) of
                Inl e \<Rightarrow> Inl e
              | Inr b2 \<Rightarrow> Inr (s1\<lparr> bins := b2, count := count s1 + count s1 \<rparr>))))"

section \<open>Invariants, reachable stores, logical counters\<close>

text \<open>
  The invariant of a store: a configuration with which \<open>add\<close> can allocate and grow
  (\<open>chunk_size\<close>, \<open>initial_chunk_size\<close> and, for the collapsing store, \<open>max_bins\<close> at
  least 1), \<open>count\<close> the sum of the bins, no negative bin, and, once something was
  added, exactly one bin for each key of \<open>[min_key, max_key]\<close>.
\<close>

definition wf_store :: "store \<Rightarrow> bool" where
  "wf_store s \<longleftrightarrow>
     1 \<le> chunk_size s \<and> 1 \<le> initial_chunk_size s \<and>
     (\<forall>m. max_bins s = Some m \<longrightarrow> 1 \<le> m) \<and>
     sum_list (bins s) = count s \<and>
     (\<forall>b \<in> set (bins s). 0 \<le> b) \<and>
     (count s \<noteq> 0 \<longrightarrow> int (length (bins s)) = max_key s - min_key s + 1)"

text \<open>The attributes that only the constructors and \<open>copy\<close> assign.\<close>

definition same_config :: "store \<Rightarrow> store \<Rightarrow> bool" where
  "same_config s s' \<longleftrightarrow>
     max_bins s' = max_bins s \<and> chunk_size s' = chunk_size s \<and>
     initial_chunk_size s' = initial_chunk_size s \<and> initial_nbins s' = initial_nbins s"

text \<open>
  The stores a caller can hold: built by a constructor with valid arguments
  (\<open>chunk_size \<ge> 1\<close>, and \<open>max_bins \<ge> 1\<close> for the collapsing store; any \<open>initial_nbins\<close>),
  then changed by \<open>add\<close> and by \<open>merge\<close> with another such store or with itself. An
  operation that raises yields no store.
\<close>

inductive reachable :: "store \<Rightarrow> bool" where
  new_dense: "1 \<le> csize \<Longrightarrow> DenseStore nbins csize = Inr s \<Longrightarrow> reachable s"
| new_collapsing:
    "1 \<le> mbins \<Longrightarrow> 1 \<le> csize \<Longrightarrow> CollapsingLowestDenseStore mbins nbins csize = Inr s
     \<Longrightarrow> reachable s"
| after_add: "reachable s \<Longrightarrow> add s key = Inr s' \<Longrightarrow> reachable s'"
| after_merge: "reachable s \<Longrightarrow> reachable st \<Longrightarrow> merge s st = Inr s' \<Longrightarrow> reachable s'"
| after_merge_self: "reachable s \<Longrightarrow> merge_self s = Inr s' \<Longrightarrow> reachable s'"



section \<open>Lists and growth\<close>

lemma grow_by_code [code]:
  "grow_by s r =
     (if chunk_size s = 0 then Inl ZeroDivisionError
      else Inr (chunk_size s * (- ((- r) div chunk_size s))))"
  by (simp add: grow_by_def ceiling_divide_eq_div)

lemma grow_by_valid:
  assumes "1 \<le> chunk_size s"
  shows "\<exists>g. grow_by s r = Inr g \<and> r \<le> g \<and> (0 \<le> r \<longrightarrow> 0 \<le> g)"
proof -
  let ?c = "chunk_size s"
  let ?g = "?c * (- ((- r) div ?c))"
  have c: "0 < ?c" using assms by simp
  have "?c * ((- r) div ?c) \<le> - r"
    using c by (metis mult.commute pos_mod_sign minus_mod_eq_mult_div diff_le_eq add_increasing2 order_refl)
  then have 1: "r \<le> ?g" by simp
  have 2: "0 \<le> r \<longrightarrow> 0 \<le> ?g" using 1 by linarith
  show ?thesis using c 1 2 by (simp add: grow_by_code)
qed

lemma py_index_0: "xs \<noteq> [] \<Longrightarrow> py_index xs 0 = Inr 0"
  by (simp add: py_index_def)

lemma py_index_nonneg: "0 \<le> i \<Longrightarrow> i < int (length xs) \<Longrightarrow> py_index xs i = Inr (nat i)"
  by (simp add: py_index_def)

lemma py_index_Inr: "py_index xs i = Inr j \<Longrightarrow> j < length xs"
  by (auto simp: py_index_def Let_def split: if_splits)

lemma list_add_at_Inr:
  "list_add_at xs i v = Inr ys \<Longrightarrow> \<exists>j < length xs. ys = xs[j := xs ! j + v]"
  by (auto simp: list_add_at_def split: sum.splits dest: py_index_Inr)

lemma sum_list_add_at: "j < length xs \<Longrightarrow> sum_list (xs[j := xs ! j + v]) = sum_list xs + (v::int)"
proof (induction xs arbitrary: j)
  case Nil
  then show ?case by simp
next
  case (Cons x xs)
  then show ?case by (cases j) simp_all
qed

lemma sum_list_nonneg_int: "\<forall>b \<in> set xs. (0::int) \<le> b \<Longrightarrow> 0 \<le> sum_list xs"
  by (induction xs) auto

lemma sum_list_zeros [simp]: "sum_list (zeros n) = 0"
  by (simp add: zeros_def sum_list_replicate)

lemma length_zeros [simp]: "length (zeros n) = nat n"
  by (simp add: zeros_def)

lemma set_zeros: "b \<in> set (zeros n) \<Longrightarrow> b = 0"
  by (simp add: zeros_def)

lemma wf_count_nonneg: "wf_store s \<Longrightarrow> 0 \<le> count s"
  unfolding wf_store_def using sum_list_nonneg_int by metis

lemma wf_nonempty: "wf_store s \<Longrightarrow> count s \<noteq> 0 \<Longrightarrow> bins s \<noteq> []"
  unfolding wf_store_def by auto

lemma wf_range: "wf_store s \<Longrightarrow> count s \<noteq> 0 \<Longrightarrow> min_key s \<le> max_key s"
proof -
  assume a: "wf_store s" "count s \<noteq> 0"
  then have "bins s \<noteq> []" by (rule wf_nonempty)
  then have "0 < int (length (bins s))" by simp
  then show ?thesis using a unfolding wf_store_def by linarith
qed

lemma wf_prepend:
  assumes "wf_store s" "count s \<noteq> 0" "0 \<le> d"
  shows "wf_store (s\<lparr> bins := zeros d @ bins s, min_key := min_key s - d \<rparr>)"
  using assms unfolding wf_store_def by (auto dest: set_zeros)

lemma wf_append:
  assumes "wf_store s" "count s \<noteq> 0" "0 \<le> d"
  shows "wf_store (s\<lparr> bins := bins s @ zeros d, max_key := max_key s + d \<rparr>)"
  using assms unfolding wf_store_def by (auto dest: set_zeros)

lemma grow_left_shape:
  assumes wf: "wf_store s" and c: "count s \<noteq> 0" and k: "key \<le> min_key s"
  shows "\<exists>d\<ge>0. grow_left s key = Inr (s\<lparr> bins := zeros d @ bins s, min_key := min_key s - d \<rparr>)
               \<and> (max_bins s = None \<longrightarrow> min_key s - d \<le> key)"
proof -
  from wf have cs: "1 \<le> chunk_size s" by (simp add: wf_store_def)
  obtain g where g: "grow_by s (min_key s - key) = Inr g" "min_key s - key \<le> g" "0 \<le> g"
    using grow_by_valid[OF cs, of "min_key s - key"] k by auto
  have len: "int (length (bins s)) = max_key s - min_key s + 1"
    using wf c by (simp add: wf_store_def)
  have id: "s\<lparr> bins := zeros 0 @ bins s, min_key := min_key s - 0 \<rparr> = s"
    by (simp add: zeros_def)
  show ?thesis
  proof (cases "max_bins s")
    case None
    have "grow_left s key = Inr (s\<lparr> bins := zeros g @ bins s, min_key := min_key s - g \<rparr>)"
      using None k g by (simp add: grow_left_def DenseStore_grow_left_def Let_def)
    then show ?thesis using g None by (intro exI[of _ g]) auto
  next
    case (Some m)
    show ?thesis
    proof (cases "int (length (bins s)) \<ge> m")
      case True
      then have "grow_left s key = Inr s"
        using Some by (simp add: grow_left_def Collapsing_grow_left_def)
      then show ?thesis using id Some by (intro exI[of _ 0]) simp
    next
      case False
      define mk where "mk = (if max_key s - key \<ge> m then max_key s - m + 1
                             else max (min_key s - g) (max_key s - m + 1))"
      have mk: "mk \<le> min_key s" using False len g by (auto simp: mk_def)
      have "grow_left s key = Inr (s\<lparr> bins := zeros (min_key s - mk) @ bins s, min_key := mk \<rparr>)"
        using Some False k g by (simp add: grow_left_def Collapsing_grow_left_def Let_def mk_def)
      then show ?thesis using mk Some by (intro exI[of _ "min_key s - mk"]) simp
    qed
  qed
qed

lemma same_config_refl [simp]: "same_config s s"
  by (simp add: same_config_def)

lemma zeros_nonempty: "1 \<le> m \<Longrightarrow> zeros m \<noteq> []"
  by (simp add: zeros_def)

lemma list_set_at_0: "xs \<noteq> [] \<Longrightarrow> list_set_at xs 0 v = Inr (xs[0 := v])"
  by (simp add: list_set_at_def py_index_0)

lemma list_add_at_0: "xs \<noteq> [] \<Longrightarrow> list_add_at xs 0 v = Inr (xs[0 := xs ! 0 + v])"
  by (simp add: list_add_at_def py_index_0)

lemma set_update_nonneg:
  "\<forall>b \<in> set xs. (0::int) \<le> b \<Longrightarrow> 0 \<le> v \<Longrightarrow> \<forall>b \<in> set (xs[j := v]). 0 \<le> b"
  by (metis insert_iff set_update_subset_insert subsetD)

lemma nonneg_add_at:
  assumes "\<forall>b \<in> set xs. (0::int) \<le> b" "0 \<le> v" "j < length xs"
  shows "\<forall>b \<in> set (xs[j := xs ! j + v]). 0 \<le> b"
proof -
  have "0 \<le> xs ! j + v" using assms by (simp add: add_nonneg_nonneg)
  then show ?thesis using assms(1) by (rule set_update_nonneg[rotated])
qed

lemma sum_list_add_at_0: "xs \<noteq> [] \<Longrightarrow> sum_list (xs[0 := xs ! 0 + v]) = sum_list xs + (v::int)"
  by (cases xs) simp_all

lemma nonneg_add_at_0:
  "\<forall>b \<in> set xs. (0::int) \<le> b \<Longrightarrow> 0 \<le> v \<Longrightarrow> xs \<noteq> [] \<Longrightarrow> \<forall>b \<in> set (xs[0 := xs ! 0 + v]). 0 \<le> b"
  by (cases xs) simp_all

lemma sum_list_take_drop: "sum_list (take n xs) + sum_list (drop n xs) = (sum_list xs :: int)"
  by (metis append_take_drop_id sum_list.append)

lemma Collapsing_grow_right_wf:
  assumes wf: "wf_store s" and cnz: "count s \<noteq> 0" and k: "max_key s \<le> key"
    and m: "max_bins s = Some m"
  shows "\<exists>s1. Collapsing_grow_right m s key = Inr s1 \<and> wf_store s1 \<and> count s1 = count s
              \<and> key \<le> max_key s1 \<and> same_config s s1"
proof -
  from wf have cs: "1 \<le> chunk_size s" by (simp add: wf_store_def)
  from wf m have m1: "1 \<le> m" by (simp add: wf_store_def)
  have len: "int (length (bins s)) = max_key s - min_key s + 1"
    using wf cnz by (simp add: wf_store_def)
  have nn: "\<forall>b \<in> set (bins s). 0 \<le> b" and sm: "sum_list (bins s) = count s"
    using wf by (simp_all add: wf_store_def)
  have cnn: "0 \<le> count s" using wf by (rule wf_count_nonneg)
  consider (a) "key - max_key s \<ge> m"
    | (b) "key - max_key s < m" "key - min_key s \<ge> m"
    | (c) "key - max_key s < m" "key - min_key s < m" by linarith
  then show ?thesis
  proof cases
    case a
    let ?b = "(zeros m)[0 := count s]"
    let ?s1 = "s\<lparr> bins := ?b, max_key := key, min_key := key - m + 1 \<rparr>"
    have z: "zeros m \<noteq> []" using m1 by (rule zeros_nonempty)
    have z0: "zeros m ! 0 = 0" using m1 by (simp add: zeros_def)
    have r: "Collapsing_grow_right m s key = Inr ?s1"
      using a k z by (simp add: Collapsing_grow_right_def list_set_at_0)
    have s1: "sum_list ?b = count s"
      using sum_list_add_at_0[OF z, of "count s"] z0 by simp
    have n1: "\<forall>b \<in> set ?b. 0 \<le> b"
      using nonneg_add_at_0[of "zeros m" "count s"] z z0 cnn by (auto dest: set_zeros)
    have "wf_store ?s1"
      using wf m1 s1 n1 unfolding wf_store_def by simp
    then show ?thesis using r m by (simp add: same_config_def)
  next
    case b
    define mk where "mk = key - m + 1"
    define n where "n = nat (mk - min_key s)"
    have mkpos: "min_key s \<le> mk" using b by (simp add: mk_def)
    have n: "int n = mk - min_key s" "n < length (bins s)"
      using b len k by (simp_all add: n_def mk_def)
    define ct where "ct = sum_list (take n (bins s))"
    define b1 where "b1 = drop n (bins s) @ zeros (key - max_key s)"
    have b1ne: "b1 \<noteq> []" using n by (simp add: b1_def)
    let ?b = "b1[0 := b1 ! 0 + ct]"
    let ?s1 = "s\<lparr> bins := ?b, max_key := key, min_key := mk \<rparr>"
    have sl: "slice_to (mk - min_key s) (bins s) = take n (bins s)"
      "slice_from (mk - min_key s) (bins s) = drop n (bins s)"
      using mkpos by (simp_all add: slice_to_def slice_from_def n_def)
    have r: "Collapsing_grow_right m s key = Inr ?s1"
      using b k b1ne sl
      by (simp add: Collapsing_grow_right_def Let_def list_add_at_0 mk_def[symmetric]
          b1_def[symmetric] ct_def[symmetric])
    have "sum_list b1 + ct = sum_list (bins s)"
      unfolding b1_def ct_def using sum_list_take_drop[of n "bins s"] by simp
    then have s1: "sum_list ?b = count s"
      using sum_list_add_at_0[OF b1ne, of ct] sm by simp
    have ctnn: "0 \<le> ct" unfolding ct_def
      using nn by (intro sum_list_nonneg_int) (auto dest: in_set_takeD)
    have b1nn: "\<forall>x \<in> set b1. 0 \<le> x"
      using nn unfolding b1_def by (auto dest: in_set_dropD set_zeros)
    have n1: "\<forall>x \<in> set ?b. 0 \<le> x"
      using b1ne ctnn b1nn by (intro nonneg_add_at_0) auto
    have l1: "int (length ?b) = key - mk + 1"
      using n len k b by (simp add: b1_def mk_def)
    have "wf_store ?s1"
      using wf s1 n1 l1 unfolding wf_store_def by simp
    then show ?thesis using r m by (simp add: same_config_def)
  next
    case c
    obtain g where g: "grow_by s (key - max_key s) = Inr g" "key - max_key s \<le> g" "0 \<le> g"
      using grow_by_valid[OF cs, of "key - max_key s"] k by auto
    define d where "d = min (max_key s + g) (min_key s + m) - max_key s"
    have d: "0 \<le> d" "key \<le> max_key s + d" using g c k by (auto simp: d_def)
    let ?s1 = "s\<lparr> bins := bins s @ zeros d, max_key := max_key s + d \<rparr>"
    have r: "Collapsing_grow_right m s key = Inr ?s1"
      using c k g by (simp add: Collapsing_grow_right_def Let_def d_def)
    have "wf_store ?s1" using wf cnz d by (intro wf_append)
    then show ?thesis using r d by (simp add: same_config_def)
  qed
qed

lemma grow_right_wf:
  assumes wf: "wf_store s" and cnz: "count s \<noteq> 0" and k: "max_key s \<le> key"
  shows "\<exists>s1. grow_right s key = Inr s1 \<and> wf_store s1 \<and> count s1 = count s
              \<and> key \<le> max_key s1 \<and> same_config s s1
              \<and> (max_bins s = None \<longrightarrow>
                   (\<exists>d\<ge>0. s1 = s\<lparr> bins := bins s @ zeros d, max_key := max_key s + d \<rparr>))"
proof (cases "max_bins s")
  case None
  from wf have cs: "1 \<le> chunk_size s" by (simp add: wf_store_def)
  obtain g where g: "grow_by s (key - max_key s) = Inr g" "key - max_key s \<le> g" "0 \<le> g"
    using grow_by_valid[OF cs, of "key - max_key s"] k by auto
  let ?s1 = "s\<lparr> bins := bins s @ zeros g, max_key := max_key s + g \<rparr>"
  have r: "grow_right s key = Inr ?s1"
    using None k g by (simp add: grow_right_def DenseStore_grow_right_def Let_def)
  have "wf_store ?s1" using wf cnz g by (intro wf_append)
  then show ?thesis using r g by (auto simp: same_config_def)
next
  case (Some m)
  then show ?thesis
    using Collapsing_grow_right_wf[OF wf cnz k Some] by (simp add: grow_right_def)
qed

section \<open>add and merge keep the invariant\<close>

lemma add_grow_ok:
  assumes wf: "wf_store s"
  shows "\<exists>s1. add_grow s key = Inr s1 \<and> same_config s s1 \<and> count s1 = count s
              \<and> sum_list (bins s1) = sum_list (bins s) \<and> (\<forall>b \<in> set (bins s1). 0 \<le> b)
              \<and> int (length (bins s1)) = max_key s1 - min_key s1 + 1
              \<and> key \<le> max_key s1 \<and> bins s1 \<noteq> []"
proof (cases "count s = 0")
  case True
  define s0 where "s0 = (if length (bins s) = 0
                         then s\<lparr> bins := zeros (initial_chunk_size s) \<rparr> else s)"
  let ?s1 = "s0\<lparr> max_key := key, min_key := key - int (length (bins s0)) + 1 \<rparr>"
  have ne: "bins s0 \<noteq> []"
    using wf zeros_nonempty[of "initial_chunk_size s"] by (auto simp: s0_def wf_store_def)
  have sm: "sum_list (bins s0) = sum_list (bins s)" by (simp add: s0_def)
  have nn: "\<forall>b \<in> set (bins s0). 0 \<le> b"
    using wf by (auto simp: s0_def wf_store_def dest: set_zeros)
  have cf: "same_config s s0" "count s0 = count s" by (simp_all add: s0_def same_config_def)
  have r: "add_grow s key = Inr ?s1"
    using True by (simp add: add_grow_def s0_def)
  show ?thesis using r ne sm nn cf by (simp add: same_config_def)
next
  case False
  have ne: "bins s \<noteq> []" using wf False by (rule wf_nonempty)
  have rng: "min_key s \<le> max_key s" using wf False by (rule wf_range)
  have props: "sum_list (bins s) = count s" "\<forall>b \<in> set (bins s). 0 \<le> b"
    "int (length (bins s)) = max_key s - min_key s + 1"
    using wf False by (simp_all add: wf_store_def)
  consider (left) "key < min_key s" | (right) "min_key s \<le> key" "max_key s < key"
    | (inside) "min_key s \<le> key" "key \<le> max_key s" by linarith
  then show ?thesis
  proof cases
    case left
    then have "key \<le> min_key s" by simp
    from grow_left_shape[OF wf False this] obtain d where d: "0 \<le> d"
      "grow_left s key = Inr (s\<lparr> bins := zeros d @ bins s, min_key := min_key s - d \<rparr>)"
      by blast
    have r: "add_grow s key = Inr (s\<lparr> bins := zeros d @ bins s, min_key := min_key s - d \<rparr>)"
      using False ne left d by (simp add: add_grow_def)
    show ?thesis using r d props ne left rng by (auto simp: same_config_def dest: set_zeros)
  next
    case right
    then have "max_key s \<le> key" by simp
    from grow_right_wf[OF wf False this] obtain s1 where s1:
      "grow_right s key = Inr s1" "wf_store s1" "count s1 = count s" "key \<le> max_key s1"
      "same_config s s1" by blast
    have r: "add_grow s key = Inr s1"
      using False ne right s1 by (simp add: add_grow_def)
    have ne1: "bins s1 \<noteq> []" using s1 False by (intro wf_nonempty) simp_all
    show ?thesis using r s1 False props ne1 by (simp add: wf_store_def)
  next
    case inside
    have r: "add_grow s key = Inr s"
      using False ne inside by (simp add: add_grow_def)
    show ?thesis using r props ne inside by simp
  qed
qed

lemma add_ok:
  assumes wf: "wf_store s"
  shows "\<exists>s1. add_grow s key = Inr s1 \<and> same_config s s1
              \<and> sum_list (bins s1) = sum_list (bins s)
              \<and> nat (max 0 (key - min_key s1)) < length (bins s1)
              \<and> add s key =
                  Inr (s1\<lparr> bins := (bins s1)[nat (max 0 (key - min_key s1)) :=
                                      bins s1 ! nat (max 0 (key - min_key s1)) + 1],
                          count := count s + 1 \<rparr>)
              \<and> wf_store (s1\<lparr> bins := (bins s1)[nat (max 0 (key - min_key s1)) :=
                                      bins s1 ! nat (max 0 (key - min_key s1)) + 1],
                          count := count s + 1 \<rparr>)"
proof -
  from add_grow_ok[OF wf, of key] obtain s1 where s1:
    "add_grow s key = Inr s1" "same_config s s1" "count s1 = count s"
    "sum_list (bins s1) = sum_list (bins s)" "\<forall>b \<in> set (bins s1). 0 \<le> b"
    "int (length (bins s1)) = max_key s1 - min_key s1 + 1"
    "key \<le> max_key s1" "bins s1 \<noteq> []" by blast
  define idx where "idx = max 0 (key - min_key s1)"
  have lpos: "0 < int (length (bins s1))" using s1(8) by simp
  have i: "0 \<le> idx" "idx < int (length (bins s1))"
    using lpos s1(6,7) unfolding idx_def by linarith+
  then have ni: "nat idx < length (bins s1)" by simp
  let ?s' = "s1\<lparr> bins := (bins s1)[nat idx := bins s1 ! nat idx + 1], count := count s + 1 \<rparr>"
  have r: "add s key = Inr ?s'"
    using s1 i by (simp add: add_def Let_def idx_def[symmetric] list_add_at_def py_index_nonneg)
  have sm: "sum_list ((bins s1)[nat idx := bins s1 ! nat idx + 1]) = count s + 1"
    using sum_list_add_at[OF ni, of 1] s1 wf by (simp add: wf_store_def)
  have nn: "\<forall>b \<in> set ((bins s1)[nat idx := bins s1 ! nat idx + 1]). 0 \<le> b"
    using s1 ni by (intro nonneg_add_at) simp_all
  have "wf_store ?s'"
    using wf s1 sm nn unfolding wf_store_def same_config_def by simp
  then show ?thesis using s1 r ni unfolding idx_def by blast
qed

lemma add_wf:
  assumes "wf_store s"
  shows "\<exists>s'. add s key = Inr s' \<and> wf_store s' \<and> count s' = count s + 1"
  using add_ok[OF assms, of key] by force

lemma merge_loop_sum:
  assumes "merge_loop ks dmin dst smin src = Inr dst'"
    and "\<forall>i \<in> set ks. 0 \<le> i - smin \<and> i - smin < int (length src)"
  shows "length dst' = length dst \<and>
         sum_list dst' = sum_list dst + (\<Sum>i\<leftarrow>ks. src ! nat (i - smin))"
  using assms
proof (induction ks arbitrary: dst)
  case Nil
  then show ?case by simp
next
  case (Cons i ks)
  from Cons.prems(2) have ix: "py_index src (i - smin) = Inr (nat (i - smin))"
    by (simp add: py_index_nonneg)
  from Cons.prems(1) ix obtain d1 where d1:
    "list_add_at dst (i - dmin) (src ! nat (i - smin)) = Inr d1"
    "merge_loop ks dmin d1 smin src = Inr dst'"
    by (auto split: sum.splits)
  from list_add_at_Inr[OF d1(1)] obtain j where j: "j < length dst"
    "d1 = dst[j := dst ! j + src ! nat (i - smin)]" by blast
  have "length d1 = length dst" "sum_list d1 = sum_list dst + src ! nat (i - smin)"
    using j by (simp_all add: sum_list_add_at)
  moreover have "length dst' = length d1 \<and>
         sum_list dst' = sum_list d1 + (\<Sum>i\<leftarrow>ks. src ! nat (i - smin))"
    using Cons.IH[OF d1(2)] Cons.prems(2) by simp
  ultimately show ?case by simp
qed

lemma merge_loop_nonneg:
  assumes "merge_loop ks dmin dst smin src = Inr dst'"
    and "\<forall>b \<in> set dst. 0 \<le> b" and "\<forall>b \<in> set src. 0 \<le> b"
  shows "\<forall>b \<in> set dst'. 0 \<le> b"
  using assms
proof (induction ks arbitrary: dst)
  case Nil
  then show ?case by simp
next
  case (Cons i ks)
  from Cons.prems(1) obtain j d1 where d1: "py_index src (i - smin) = Inr j"
    "list_add_at dst (i - dmin) (src ! j) = Inr d1"
    "merge_loop ks dmin d1 smin src = Inr dst'"
    by (auto split: sum.splits)
  have v: "0 \<le> src ! j" using py_index_Inr[OF d1(1)] Cons.prems(3) by simp
  from list_add_at_Inr[OF d1(2)] obtain l where l: "l < length dst"
    "d1 = dst[l := dst ! l + src ! j]" by blast
  have "\<forall>b \<in> set (dst[l := dst ! l + src ! j]). 0 \<le> b"
    using Cons.prems(2) v l(1) by (rule nonneg_add_at)
  then have "\<forall>b \<in> set d1. 0 \<le> b" using l(2) by simp
  then show ?case using Cons.IH[OF d1(3)] Cons.prems(3) by blast
qed

lemma map_nth_upto:
  assumes "0 \<le> a - smin" "b - smin < int (length src)"
  shows "map (\<lambda>i. src ! nat (i - smin)) [a..b] =
         drop (nat (a - smin)) (take (nat (b - smin + 1)) src)"
proof (rule nth_equalityI)
  show "length (map (\<lambda>i. src ! nat (i - smin)) [a..b]) =
        length (drop (nat (a - smin)) (take (nat (b - smin + 1)) src))"
    using assms by simp
next
  fix k assume "k < length (map (\<lambda>i. src ! nat (i - smin)) [a..b])"
  then have k: "a + int k \<le> b" by simp
  have kl: "k < length [a..b]" using k by simp
  have n1: "[a..b] ! k = a + int k" using k by (rule nth_upto)
  have n2: "nat (a - smin) + k = nat (a + int k - smin)" using assms by simp
  have n3: "nat (a - smin) + k < nat (b - smin + 1)" using k assms by linarith
  have n4: "nat (a - smin) + k < length src" using k assms by linarith
  have "drop (nat (a - smin)) (take (nat (b - smin + 1)) src) ! k = src ! (nat (a - smin) + k)"
    using n3 n4 by simp
  moreover have "map (\<lambda>i. src ! nat (i - smin)) [a..b] ! k = src ! nat (a + int k - smin)"
    using kl n1 by (simp only: nth_map)
  ultimately show "map (\<lambda>i. src ! nat (i - smin)) [a..b] ! k =
        drop (nat (a - smin)) (take (nat (b - smin + 1)) src) ! k"
    using n2 by simp
qed

lemma sum_upto_whole:
  assumes "int (length src) = smax - smin + 1"
  shows "(\<Sum>i\<leftarrow>[smin..smax]. src ! nat (i - smin)) = sum_list src"
proof -
  have "map (\<lambda>i. src ! nat (i - smin)) [smin..smax] =
         drop (nat (smin - smin)) (take (nat (smax - smin + 1)) src)"
    using assms by (intro map_nth_upto) simp_all
  then show ?thesis using assms by simp
qed

lemma wf_set_bins:
  assumes "wf_store s1" "count s1 \<noteq> 0" "0 \<le> c"
    "length b = length (bins s1)" "sum_list b = count s1 + c" "\<forall>x \<in> set b. 0 \<le> x"
  shows "wf_store (s1\<lparr> bins := b, count := count s1 + c \<rparr>)"
  using assms unfolding wf_store_def by simp

lemma copy_wf:
  assumes "wf_store s" "wf_store st" "copy s st = Inr s'"
  shows "wf_store s'"
proof (cases "max_bins s")
  case None
  then have "s' = DenseStore_copy s st" using assms(3) by (simp add: copy_def)
  then show ?thesis using assms(1,2) None by (simp add: wf_store_def DenseStore_copy_def)
next
  case (Some m)
  then obtain m' where m': "max_bins st = Some m'"
    "s' = DenseStore_copy (s\<lparr> max_bins := Some m' \<rparr>) st"
    using assms(3) by (auto simp: copy_def split: option.splits)
  then show ?thesis using assms(1,2) by (simp add: wf_store_def DenseStore_copy_def)
qed

lemma merge_wf:
  assumes wf: "wf_store s" and wft: "wf_store st" and mg: "merge s st = Inr s'"
  shows "wf_store s'"
proof -
  consider (empty_other) "count st = 0"
    | (empty_self) "count st \<noteq> 0" "count s = 0"
    | (above) "count st \<noteq> 0" "count s \<noteq> 0" "max_key s > max_key st"
    | (below) "count st \<noteq> 0" "count s \<noteq> 0" "max_key s \<le> max_key st" "min_key st < min_key s"
    | (right) "count st \<noteq> 0" "count s \<noteq> 0" "max_key s \<le> max_key st" "min_key s \<le> min_key st"
    by linarith
  then show ?thesis
  proof cases
    case empty_other
    then show ?thesis using mg wf by (simp add: merge_def)
  next
    case empty_self
    then have "copy s st = Inr s'" using mg by (simp add: merge_def)
    with wf wft show ?thesis by (rule copy_wf)
  next
    case above
    have tl: "int (length (bins st)) = max_key st - min_key st + 1"
      and tn: "\<forall>b \<in> set (bins st). 0 \<le> b" and ts: "sum_list (bins st) = count st"
      using wft above by (simp_all add: wf_store_def)
    have tc: "0 \<le> count st" using wft by (rule wf_count_nonneg)
    have "\<exists>s1. (if min_key st < min_key s then grow_left s (min_key st) else Inr s) = Inr s1
               \<and> wf_store s1 \<and> count s1 = count s"
    proof (cases "min_key st < min_key s")
      case True
      then have "min_key st \<le> min_key s" by simp
      from grow_left_shape[OF wf above(2) this] obtain d where d: "0 \<le> d"
        "grow_left s (min_key st) = Inr (s\<lparr> bins := zeros d @ bins s, min_key := min_key s - d \<rparr>)"
        by blast
      show ?thesis using True d wf_prepend[OF wf above(2) d(1)] by simp
    next
      case False
      then show ?thesis using wf by simp
    qed
    then obtain s1 where s1:
      "(if min_key st < min_key s then grow_left s (min_key st) else Inr s) = Inr s1"
      "wf_store s1" "count s1 = count s" by blast
    define a where "a = max (min_key s1) (min_key st)"
    define fold where "fold b2 = (if min_key s1 > min_key st
                         then list_add_at b2 0
                                (sum_list (slice_to (min_key s1 - min_key st) (bins st)))
                         else Inr b2)" for b2
    have m: "merge s st =
        (case merge_loop [a .. max_key st] (min_key s1) (bins s1) (min_key st) (bins st) of
           Inl e \<Rightarrow> Inl e
         | Inr b2 \<Rightarrow> (case fold b2 of Inl e \<Rightarrow> Inl e
                     | Inr b3 \<Rightarrow> Inr (s1\<lparr> bins := b3, count := count s1 + count st \<rparr>)))"
      unfolding fold_def a_def using above s1(1) by (simp add: merge_def)
    obtain b2 where b2:
      "merge_loop [a .. max_key st] (min_key s1) (bins s1) (min_key st) (bins st) = Inr b2"
      using m mg by (cases "merge_loop [a .. max_key st] (min_key s1) (bins s1) (min_key st) (bins st)") auto
    obtain b3 where b3: "fold b2 = Inr b3"
      "s' = s1\<lparr> bins := b3, count := count s1 + count st \<rparr>"
      using m mg b2 by (cases "fold b2") auto
    have rng: "\<forall>i \<in> set [a .. max_key st]. 0 \<le> i - min_key st \<and> i - min_key st < int (length (bins st))"
      using tl by (auto simp: a_def)
    from merge_loop_sum[OF b2 rng] have l2: "length b2 = length (bins s1)"
      and s2: "sum_list b2 = sum_list (bins s1) + (\<Sum>i\<leftarrow>[a .. max_key st]. bins st ! nat (i - min_key st))"
      by simp_all
    have n2: "\<forall>x \<in> set b2. 0 \<le> x"
      using merge_loop_nonneg[OF b2] s1(2) tn by (simp add: wf_store_def)
    have "map (\<lambda>i. bins st ! nat (i - min_key st)) [a .. max_key st] =
          drop (nat (a - min_key st)) (take (nat (max_key st - min_key st + 1)) (bins st))"
      using tl by (intro map_nth_upto) (simp_all add: a_def)
    then have s2': "sum_list b2 = sum_list (bins s1) + sum_list (drop (nat (a - min_key st)) (bins st))"
      using s2 tl by simp
    have ne2: "b2 \<noteq> []" using l2 wf_nonempty[OF s1(2)] s1(3) above by auto
    have "length b3 = length (bins s1) \<and> sum_list b3 = count s1 + count st \<and> (\<forall>x \<in> set b3. 0 \<le> x)"
    proof (cases "min_key s1 > min_key st")
      case True
      define ct where "ct = sum_list (take (nat (a - min_key st)) (bins st))"
      have "slice_to (min_key s1 - min_key st) (bins st) = take (nat (a - min_key st)) (bins st)"
        using True by (simp add: slice_to_def a_def)
      then have e3: "b3 = b2[0 := b2 ! 0 + ct]"
        using b3(1) True ne2 by (simp add: fold_def list_add_at_0 ct_def)
      have ctn: "0 \<le> ct" unfolding ct_def
        using tn by (intro sum_list_nonneg_int) (auto dest: in_set_takeD)
      have "sum_list b3 = sum_list (bins s1) + sum_list (bins st)"
        using e3 s2' sum_list_add_at_0[OF ne2, of ct]
          sum_list_take_drop[of "nat (a - min_key st)" "bins st"]
        by (simp add: ct_def)
      moreover have "\<forall>x \<in> set b3. 0 \<le> x"
        unfolding e3 using n2 ctn ne2 by (rule nonneg_add_at_0)
      ultimately show ?thesis using e3 l2 ts s1(2) by (simp add: wf_store_def)
    next
      case False
      then have "b3 = b2" "a = min_key st" using b3(1) by (simp_all add: fold_def a_def)
      then show ?thesis using s2' l2 n2 ts s1(2) by (simp add: wf_store_def)
    qed
    then show ?thesis
      unfolding b3(2) using s1 above tc by (intro wf_set_bins) simp_all
  next
    case below
    have tl: "int (length (bins st)) = max_key st - min_key st + 1"
      and tn: "\<forall>b \<in> set (bins st). 0 \<le> b" and ts: "sum_list (bins st) = count st"
      using wft below by (simp_all add: wf_store_def)
    have sl: "int (length (bins s)) = max_key s - min_key s + 1"
      and sn: "\<forall>b \<in> set (bins s). 0 \<le> b" and ss: "sum_list (bins s) = count s"
      using wf below by (simp_all add: wf_store_def)
    have cs: "0 \<le> count s" "0 \<le> count st"
      using wf wft by (simp_all add: wf_count_nonneg)
    have m: "merge s st =
        (case merge_loop [min_key s .. max_key s] (min_key st) (bins st) (min_key s) (bins s) of
           Inl e \<Rightarrow> Inl e
         | Inr tmp \<Rightarrow> Inr (s\<lparr> bins := tmp, max_key := max_key st, min_key := min_key st,
                     count := count s + count st \<rparr>))"
      using below by (simp add: merge_def)
    obtain tmp where tmp:
      "merge_loop [min_key s .. max_key s] (min_key st) (bins st) (min_key s) (bins s) = Inr tmp"
      "s' = s\<lparr> bins := tmp, max_key := max_key st, min_key := min_key st,
                     count := count s + count st \<rparr>"
      using m mg
      by (cases "merge_loop [min_key s .. max_key s] (min_key st) (bins st) (min_key s) (bins s)") auto
    have rng: "\<forall>i \<in> set [min_key s .. max_key s]. 0 \<le> i - min_key s \<and> i - min_key s < int (length (bins s))"
      using sl by auto
    from merge_loop_sum[OF tmp(1) rng] sum_upto_whole[OF sl]
    have "length tmp = length (bins st)" "sum_list tmp = count st + count s"
      using ts ss by simp_all
    moreover have "\<forall>x \<in> set tmp. 0 \<le> x"
      using merge_loop_nonneg[OF tmp(1) tn sn] .
    ultimately show ?thesis
      unfolding tmp(2) using wf tl by (simp add: wf_store_def)
  next
    case right
    have tl: "int (length (bins st)) = max_key st - min_key st + 1"
      and tn: "\<forall>b \<in> set (bins st). 0 \<le> b" and ts: "sum_list (bins st) = count st"
      using wft right by (simp_all add: wf_store_def)
    have tc: "0 \<le> count st" using wft by (rule wf_count_nonneg)
    from grow_right_wf[OF wf right(2,3)] obtain s1 where s1:
      "grow_right s (max_key st) = Inr s1" "wf_store s1" "count s1 = count s" by blast
    have m: "merge s st =
        (case merge_loop [min_key st .. max_key st] (min_key s1) (bins s1) (min_key st) (bins st) of
           Inl e \<Rightarrow> Inl e
         | Inr b2 \<Rightarrow> Inr (s1\<lparr> bins := b2, count := count s1 + count st \<rparr>))"
      using right s1(1) by (simp add: merge_def)
    obtain b2 where b2:
      "merge_loop [min_key st .. max_key st] (min_key s1) (bins s1) (min_key st) (bins st) = Inr b2"
      "s' = s1\<lparr> bins := b2, count := count s1 + count st \<rparr>"
      using m mg
      by (cases "merge_loop [min_key st .. max_key st] (min_key s1) (bins s1) (min_key st) (bins st)") auto
    have rng: "\<forall>i \<in> set [min_key st .. max_key st]. 0 \<le> i - min_key st \<and> i - min_key st < int (length (bins st))"
      using tl by auto
    from merge_loop_sum[OF b2(1) rng] sum_upto_whole[OF tl]
    have "length b2 = length (bins s1)" "sum_list b2 = count s1 + count st"
      using ts s1(2) by (simp_all add: wf_store_def)
    moreover have "\<forall>x \<in> set b2. 0 \<le> x"
      using merge_loop_nonneg[OF b2(1)] s1(2) tn by (simp add: wf_store_def)
    ultimately show ?thesis
      unfolding b2(2) using s1 right tc by (intro wf_set_bins) simp_all
  qed
qed

lemma merge_self_wf:
  assumes wf: "wf_store s" and mg: "merge_self s = Inr s'"
  shows "wf_store s'"
proof (cases "count s = 0")
  case True
  then show ?thesis using mg wf by (simp add: merge_self_def)
next
  case False
  have "max_key s \<le> max_key s" by simp
  from grow_right_wf[OF wf False this] obtain s1 where s1:
    "grow_right s (max_key s) = Inr s1" "wf_store s1" "count s1 = count s" by blast
  have c1: "count s1 \<noteq> 0" using s1(3) False by simp
  have l1: "int (length (bins s1)) = max_key s1 - min_key s1 + 1"
    and n1: "\<forall>b \<in> set (bins s1). 0 \<le> b" and sm1: "sum_list (bins s1) = count s1"
    using s1(2) c1 by (simp_all add: wf_store_def)
  have cn: "0 \<le> count s1" using s1(2) by (rule wf_count_nonneg)
  have m: "merge_self s =
      (case merge_loop [min_key s1 .. max_key s1] (min_key s1) (bins s1) (min_key s1) (bins s1) of
         Inl e \<Rightarrow> Inl e
       | Inr b2 \<Rightarrow> Inr (s1\<lparr> bins := b2, count := count s1 + count s1 \<rparr>))"
    using False s1(1) by (simp add: merge_self_def)
  obtain b2 where b2:
    "merge_loop [min_key s1 .. max_key s1] (min_key s1) (bins s1) (min_key s1) (bins s1) = Inr b2"
    "s' = s1\<lparr> bins := b2, count := count s1 + count s1 \<rparr>"
    using m mg
    by (cases "merge_loop [min_key s1 .. max_key s1] (min_key s1) (bins s1) (min_key s1) (bins s1)") auto
  have rng: "\<forall>i \<in> set [min_key s1 .. max_key s1].
               0 \<le> i - min_key s1 \<and> i - min_key s1 < int (length (bins s1))"
    using l1 by auto
  from merge_loop_sum[OF b2(1) rng] sum_upto_whole[OF l1]
  have "length b2 = length (bins s1)" "sum_list b2 = count s1 + count s1"
    using sm1 by simp_all
  moreover have "\<forall>x \<in> set b2. 0 \<le> x"
    using merge_loop_nonneg[OF b2(1) n1 n1] .
  ultimately show ?thesis
    unfolding b2(2) using s1(2) c1 cn by (intro wf_set_bins) simp_all
qed

lemma merge_self_dense:
  assumes "wf_store s" "max_bins s = None"
  shows "merge_self s = merge s s"
proof (cases "count s = 0")
  case True
  then show ?thesis by (simp add: merge_self_def merge_def)
next
  case False
  have cs: "1 \<le> chunk_size s" using assms(1) by (simp add: wf_store_def)
  have "grow_right s (max_key s) = Inr s"
    using assms(2) cs by (simp add: grow_right_def DenseStore_grow_right_def grow_by_def zeros_def)
  then show ?thesis using False by (simp add: merge_self_def merge_def)
qed

text \<open>
  \<open>merge\<close> itself can raise on reachable collapsing stores: when \<open>_grow_right\<close> collapses
  \<open>self\<close> in the last branch, the loop still starts at \<open>store.min_key\<close>, left of the new
  \<open>self.min_key\<close>, and the negative index is out of range (or wraps to a bin at the end).
  Here \<open>self\<close> has \<open>max_bins = 2\<close> after \<open>add(0)\<close>, \<open>store\<close> has \<open>max_bins = 5\<close> after
  \<open>add(3)\<close>.
\<close>

lemma merge_collapsing_raises:
  "merge \<lparr> max_bins = Some 2, initial_nbins = 2, chunk_size = 128, initial_chunk_size = 2,
           count = 1, min_key = - 1, max_key = 0, bins = [0, 1] \<rparr>
         \<lparr> max_bins = Some 5, initial_nbins = 5, chunk_size = 128, initial_chunk_size = 5,
           count = 1, min_key = - 1, max_key = 3, bins = [0, 0, 0, 0, 1] \<rparr>
   = Inl IndexError"
  by code_simp

lemma wf_DenseStore_init: "1 \<le> csize \<Longrightarrow> wf_store (DenseStore_init nbins csize)"
  by (simp add: wf_store_def DenseStore_init_def zeros_def sum_list_replicate)

lemma wf_Collapsing_init:
  "1 \<le> mbins \<Longrightarrow> 1 \<le> csize \<Longrightarrow> wf_store (CollapsingLowestDenseStore_init mbins nbins csize)"
  by (simp add: wf_store_def CollapsingLowestDenseStore_init_def DenseStore_init_def
      CHUNK_SIZE_def zeros_def sum_list_replicate)

lemma reachable_wf: "reachable s \<Longrightarrow> wf_store s"
proof (induction rule: reachable.induct)
  case (new_dense csize nbins s)
  then show ?case using wf_DenseStore_init by (auto simp: DenseStore_def)
next
  case (new_collapsing mbins csize nbins s)
  then show ?case using wf_Collapsing_init by (auto simp: CollapsingLowestDenseStore_def)
next
  case (after_add s key s')
  then show ?case using add_wf[of s key] by auto
next
  case (after_merge s st s')
  then show ?case using merge_wf by blast
next
  case (after_merge_self s s')
  then show ?case using merge_self_wf by blast
qed












lemma replicate_Suc_update_last:
  "(replicate (Suc k) (0::int))[k := v] = replicate k 0 @ [v]"
  by (induction k) simp_all

lemma zeros_Suc: "zeros (int n + 1) = 0 # replicate n 0"
  by (simp add: zeros_def nat_add_distrib)

section \<open>key_at_rank\<close>






section \<open>Logical counters under add and merge\<close>

















section \<open>The claims\<close>

text \<open>
  C1 (the bound does not hold). The claim: after any sequence of \<open>add\<close> and \<open>merge\<close>
  operations on a collapsing store with \<open>max_bins \<ge> 1\<close>, \<open>length()\<close> is at most
  \<open>max_bins\<close>. The third branch of \<open>_grow_right\<close> caps the new \<open>max_key\<close> at
  \<open>min_key + max_bins\<close>, one more than the largest key a window of \<open>max_bins\<close> bins
  starting at \<open>min_key\<close> holds. A store built as
  \<open>CollapsingLowestDenseStore(max_bins=10, initial_nbins=2)\<close> has 11 bins after
  \<open>add(0); add(1)\<close>, and \<open>CollapsingLowestDenseStore(200)\<close> has 201.
\<close>

theorem length_exceeds_max_bins:
  "(\<exists>s. add_all (CollapsingLowestDenseStore_init 10 2 CHUNK_SIZE) [0, 1] = Inr s
        \<and> max_bins s = Some 10 \<and> length_store s = 11) \<and>
   (\<exists>s. add_all (CollapsingLowestDenseStore_init 200 INITIAL_NBINS CHUNK_SIZE) [0, 1] = Inr s
        \<and> max_bins s = Some 200 \<and> length_store s = 201)"
proof -
  have "add_all (CollapsingLowestDenseStore_init 10 2 128) [0, 1] =
        Inr \<lparr> max_bins = Some 10, initial_nbins = 2, chunk_size = 128, initial_chunk_size = 10,
              count = 2, min_key = - 1, max_key = 9,
              bins = [0, 1, 1, 0, 0, 0, 0, 0, 0, 0, 0] \<rparr>"
    by code_simp
  moreover have "add_all (CollapsingLowestDenseStore_init 200 128 128) [0, 1] =
        Inr \<lparr> max_bins = Some 200, initial_nbins = 128, chunk_size = 128,
              initial_chunk_size = 128, count = 2, min_key = - 127, max_key = 73,
              bins = replicate 127 0 @ [1, 1] @ replicate 72 0 \<rparr>"
    by code_simp
  ultimately show ?thesis
    by (simp add: length_store_def CHUNK_SIZE_def INITIAL_NBINS_def)
qed











text \<open>
  C7. In a reachable collapsing store with \<open>count > 0\<close>, \<open>add(key)\<close> with
  \<open>key - max_key \<ge> max_bins\<close> returns a store with \<open>max_key = key\<close>,
  \<open>min_key = key - max_bins + 1\<close> and exactly \<open>max_bins\<close> bins: the first holds the whole
  previous count, the last (the bin of \<open>key\<close>) holds 1, the bins between are 0. When
  \<open>max_bins = 1\<close> the first bin is the bin of \<open>key\<close> and holds the previous count plus 1.
\<close>

theorem collapse_far_right:
  assumes "reachable s" "max_bins s = Some m" "0 < count s" "key - max_key s \<ge> m"
  shows "\<exists>s'. add s key = Inr s' \<and> max_key s' = key \<and> min_key s' = key - m + 1
              \<and> int (length (bins s')) = m \<and> count s' = count s + 1
              \<and> bins s' = (if m = 1 then [count s + 1]
                           else count s # replicate (nat (m - 2)) 0 @ [1])"
proof -
  have wf: "wf_store s" using assms(1) by (rule reachable_wf)
  have cnz: "count s \<noteq> 0" using assms(3) by simp
  have m1: "1 \<le> m" using wf assms(2) by (simp add: wf_store_def)
  have ne: "bins s \<noteq> []" using wf cnz by (rule wf_nonempty)
  have rng: "min_key s \<le> max_key s" using wf cnz by (rule wf_range)
  define n where "n = nat (m - 1)"
  have mn: "m = int n + 1" using m1 by (simp add: n_def)
  have km: "\<not> key < min_key s" "key > max_key s" "\<not> max_key s > key"
    using assms(4) m1 rng by linarith+
  have gr: "Collapsing_grow_right m s key =
            Inr (s\<lparr> bins := count s # replicate n 0, max_key := key, min_key := key - m + 1 \<rparr>)"
    using km(3) assms(4) by (simp add: Collapsing_grow_right_def list_set_at_0 mn zeros_Suc)
  let ?s1 = "s\<lparr> bins := count s # replicate n 0, max_key := key, min_key := key - m + 1 \<rparr>"
  have g: "add_grow s key = Inr ?s1"
    using assms(2) cnz ne km(1,2) gr by (simp add: add_grow_def grow_right_def)
  have idx: "max 0 (key - min_key ?s1) = int n" using mn by simp
  have ix: "py_index (count s # replicate n 0) (int n) = Inr n"
    by (simp add: py_index_def)
  have a: "add s key = Inr (?s1\<lparr> bins := (count s # replicate n 0)[n := (count s # replicate n 0) ! n + 1],
                                  count := count s + 1 \<rparr>)"
    unfolding add_def g using idx ix by (simp add: list_add_at_def)
  have b: "(count s # replicate n 0)[n := (count s # replicate n 0) ! n + 1] =
           (if m = 1 then [count s + 1] else count s # replicate (nat (m - 2)) 0 @ [1])"
  proof (cases n)
    case 0
    then show ?thesis using mn by simp
  next
    case (Suc k)
    then have mk: "nat (m - 2) = k" "m \<noteq> 1" using mn by simp_all
    have "replicate (Suc k) (0::int) ! k = 0" by (rule nth_replicate) simp
    then have "(count s # replicate (Suc k) 0)[Suc k := (count s # replicate (Suc k) 0) ! Suc k + 1]
          = count s # (replicate (Suc k) 0)[k := 1]"
      by (simp del: replicate.simps)
    also have "\<dots> = count s # replicate k 0 @ [1]"
      by (simp only: replicate_Suc_update_last)
    finally show ?thesis using mk Suc by simp
  qed
  have len: "int (length (if m = 1 then [count s + 1]
                           else count s # replicate (nat (m - 2)) 0 @ [1])) = m"
    using m1 by auto
  show ?thesis unfolding a b using len by simp
qed

text \<open>
  The instance of the claim: \<open>max_bins = 3\<close>, \<open>add(0)\<close> then \<open>add(10)\<close>. The result has
  3 bins, \<open>count = 2\<close>, and the boundary bin (key 8) holds the folded mass 1.
\<close>

theorem collapse_far_right_witness:
  "reachable \<lparr> max_bins = Some 3, initial_nbins = 3, chunk_size = 128, initial_chunk_size = 3,
               count = 1, min_key = - 2, max_key = 0, bins = [0, 0, 1] \<rparr>
   \<and> add \<lparr> max_bins = Some 3, initial_nbins = 3, chunk_size = 128, initial_chunk_size = 3,
           count = 1, min_key = - 2, max_key = 0, bins = [0, 0, 1] \<rparr> 10
     = Inr \<lparr> max_bins = Some 3, initial_nbins = 3, chunk_size = 128, initial_chunk_size = 3,
             count = 2, min_key = 8, max_key = 10, bins = [1, 0, 1] \<rparr>
   \<and> add_all (CollapsingLowestDenseStore_init 3 INITIAL_NBINS CHUNK_SIZE) [0, 10]
     = Inr \<lparr> max_bins = Some 3, initial_nbins = 3, chunk_size = 128, initial_chunk_size = 3,
             count = 2, min_key = 8, max_key = 10, bins = [1, 0, 1] \<rparr>"
proof -
  let ?s0 = "\<lparr> max_bins = Some 3, initial_nbins = 3, chunk_size = 128, initial_chunk_size = 3,
               count = 1, min_key = - 2, max_key = 0, bins = [0, 0, 1::int] \<rparr>"
  have c: "CollapsingLowestDenseStore 3 128 128 = Inr (CollapsingLowestDenseStore_init 3 128 128)"
    by (simp add: CollapsingLowestDenseStore_def)
  have a: "add (CollapsingLowestDenseStore_init 3 128 128) 0 = Inr ?s0" by code_simp
  have r: "reachable ?s0" by (rule after_add[OF new_collapsing[OF _ _ c] a]) simp_all
  have b: "add ?s0 10 = Inr \<lparr> max_bins = Some 3, initial_nbins = 3, chunk_size = 128,
             initial_chunk_size = 3, count = 2, min_key = 8, max_key = 10, bins = [1, 0, 1] \<rparr>"
    by code_simp
  show ?thesis using collapse_far_right[OF r, of 3 10] r a b
    by (simp add: INITIAL_NBINS_def CHUNK_SIZE_def)
qed



text \<open>
  C9. \<open>S.merge(O)\<close> with \<open>O.count = 0\<close> returns \<open>S\<close> unchanged. With \<open>S.count = 0\<close>,
  \<open>O.count > 0\<close> and both stores of the same class, it returns a store whose bins, count,
  min_key and max_key are those of \<open>O\<close>.
\<close>

theorem merge_with_empty:
  "(count st = 0 \<longrightarrow> merge s st = Inr s) \<and>
   (count s = 0 \<and> 0 < count st \<and> (max_bins s = None \<longleftrightarrow> max_bins st = None) \<longrightarrow>
      (\<exists>s'. merge s st = Inr s' \<and> bins s' = bins st \<and> count s' = count st
            \<and> min_key s' = min_key st \<and> max_key s' = max_key st))"
  by (auto simp: merge_def copy_def DenseStore_copy_def split: option.splits)

theorem merge_with_empty_witness:
  "merge (DenseStore_init 2 4) (DenseStore_init 3 4) = Inr (DenseStore_init 2 4)
   \<and> (\<exists>s'. merge (DenseStore_init 2 4)
              \<lparr> max_bins = None, initial_nbins = 4, chunk_size = 4, initial_chunk_size = 4,
                count = 1, min_key = - 3, max_key = 0, bins = [0, 0, 0, 1] \<rparr> = Inr s'
           \<and> bins s' = [0, 0, 0, 1] \<and> count s' = 1 \<and> min_key s' = - 3 \<and> max_key s' = 0)"
  using merge_with_empty[of "DenseStore_init 3 4" "DenseStore_init 2 4"]
    merge_with_empty[of "\<lparr> max_bins = None, initial_nbins = 4, chunk_size = 4,
                initial_chunk_size = 4, count = 1, min_key = - 3, max_key = 0,
                bins = [0, 0, 0, 1] \<rparr>" "DenseStore_init 2 4"]
  by (simp add: DenseStore_init_def)



end
